theory Spec2Isabelle
  imports Complex_Main "HOL-Library.Word" "HOL-Library.AList" "HOL-Library.Log_Nat"
begin

section \<open>Per-client rate limiting middleware (package middleware)\<close>

subsection \<open>Time\<close>

text \<open>
  A \<open>time.Time\<close> obtained from \<open>time.Now()\<close> is modelled by its reading in nanoseconds,
  an unbounded integer. A \<open>time.Duration\<close> is a signed 64-bit count of nanoseconds, so
  arithmetic on durations wraps around. \<open>t.Add(d)\<close> moves an instant by the signed value
  of the duration and \<open>t.Before(u)\<close> is the strict order on instants.
\<close>

type_synonym time = int
type_synonym duration = "64 word"

definition time_Add :: "time \<Rightarrow> duration \<Rightarrow> time" where
  "time_Add t d = t + sint d"

definition time_Before :: "time \<Rightarrow> time \<Rightarrow> bool" where
  "time_Before t u = (t < u)"

definition seconds :: "int \<Rightarrow> real" where
  "seconds ns = real_of_int ns / 1000000000"

subsection \<open>Errors\<close>

text \<open>
  The two run-time panics the middleware can meet: dereferencing a \<open>*ClientLimiter\<close>
  that points to no object, and \<open>time.NewTicker\<close> called with a non-positive interval.
\<close>

datatype error = NilPointerDereference | NonPositiveTickerInterval

subsection \<open>Data\<close>

text \<open>\<open>RateLimitConfig\<close>: two Go \<open>int\<close> fields (64 bits on the build target) and a duration.\<close>

record RateLimitConfig =
  RequestsPerSecond :: "64 word"
  BurstSize :: "64 word"
  CleanupInterval :: duration

text \<open>
  Modelled from the spec: the state of the per-client token bucket. The source keeps a
  \<open>*rate.Limiter\<close> of the package \<open>golang.org/x/time/rate\<close> here, which is not part of
  the repository's sources. The fields are those of the specification's ClientState and
  RateLimitPolicy: a real-valued rate in tokens per second, an integer bucket capacity, a
  real-valued token count and the instant of the last refill.
\<close>

record Limiter =
  requestsPerSecond :: real
  burstSize :: int
  tokens :: real
  lastRefillTime :: time

text \<open>\<open>ClientLimiter\<close>: the limiter of one client and the instant it was last seen.\<close>

record ClientLimiter =
  limiter :: Limiter
  lastSeen :: time

text \<open>
  \<open>RateLimiter\<close>. The Go map \<open>clients\<close> holds pointers: it is an association list from
  client identifiers to addresses, and \<open>store\<close> is the memory holding the
  \<open>ClientLimiter\<close> objects, an address being an index into it. Objects are allocated at
  the end of the store; an entry deleted from the map leaves its object unreachable.
  The mutex \<open>mu\<close> is held for the whole of \<open>allow\<close> and of every sweep, so each of them
  is one atomic transition of this state.
\<close>

record RateLimiter =
  clients :: "(string \<times> nat) list"
  store :: "ClientLimiter list"
  config :: RateLimitConfig

definition deref :: "ClientLimiter list \<Rightarrow> nat \<Rightarrow> error + ClientLimiter" where
  "deref h p = (if p < length h then Inr (h ! p) else Inl NilPointerDereference)"

subsection \<open>The token bucket\<close>

text \<open>
  Go's conversion of an integer to \<open>float64\<close>: exact up to \<open>2 ^ 53\<close> in magnitude,
  beyond that rounded to 53 significant bits, to the nearest value and on a tie to the
  one with an even significand. With \<open>e\<close> the number of bits dropped, \<open>q\<close> is the kept
  significand and \<open>r\<close> the dropped part.
\<close>

definition float64_of_int :: "int \<Rightarrow> real" where
  "float64_of_int i =
     (let a = \<bar>i\<bar> in
      if a \<le> 2 ^ 53 then real_of_int i
      else
        (let e = nat (bitlen a - 53);
             q = a div 2 ^ e;
             r = a mod 2 ^ e;
             q' = (if 2 ^ e < 2 * r \<or> (2 * r = 2 ^ e \<and> odd q) then q + 1 else q)
         in real_of_int (sgn i * q' * 2 ^ e)))"

text \<open>
  \<open>rate.Limit(n)\<close>: the conversion of the configured Go \<open>int\<close> to the limiter's rate, a
  \<open>float64\<close>.
\<close>

definition rate_Limit :: "64 word \<Rightarrow> real" where
  "rate_Limit n = float64_of_int (sint n)"

text \<open>
  Modelled from the spec: \<open>rate.NewLimiter\<close>, absent from the sources. A newly created
  client starts with \<open>tokens = burstSize\<close> and \<open>lastRefillTime = now\<close>.
\<close>

definition NewLimiter :: "real \<Rightarrow> int \<Rightarrow> time \<Rightarrow> Limiter" where
  "NewLimiter r b now =
     \<lparr>requestsPerSecond = r, burstSize = b, tokens = real_of_int b, lastRefillTime = now\<rparr>"

text \<open>
  Modelled from the spec: \<open>(*rate.Limiter).Allow\<close>, absent from the sources. The five
  steps of the specification's algorithm: the elapsed time since the last refill, the
  refill capped at the burst size, the refill instant set to now on admission and on
  denial alike, then one token taken if at least one is there.
\<close>

definition Allow :: "time \<Rightarrow> Limiter \<Rightarrow> bool \<times> Limiter" where
  "Allow now l =
     (let elapsed = seconds (now - lastRefillTime l);
          refilled = min (real_of_int (burstSize l)) (tokens l + elapsed * requestsPerSecond l);
          l' = l\<lparr>tokens := refilled, lastRefillTime := now\<rparr>
      in if 1 \<le> refilled then (True, l'\<lparr>tokens := refilled - 1\<rparr>) else (False, l'))"

subsection \<open>The registry\<close>

text \<open>\<open>NewRateLimiter\<close>: an empty map and the configuration as given; nothing is checked.\<close>

definition NewRateLimiter :: "RateLimitConfig \<Rightarrow> RateLimiter" where
  "NewRateLimiter cfg = \<lparr>clients = [], store = [], config = cfg\<rparr>"

text \<open>\<open>limiter.limiter.Allow()\<close> through the pointer \<open>p\<close>, at the instant \<open>now\<close>.\<close>

definition limiter_Allow :: "nat \<Rightarrow> time \<Rightarrow> RateLimiter \<Rightarrow> error + (bool \<times> RateLimiter)" where
  "limiter_Allow p now rl =
     (case deref (store rl) p of
        Inl e \<Rightarrow> Inl e
      | Inr cl \<Rightarrow>
          (case Allow now (limiter cl) of
             (ok, l') \<Rightarrow> Inr (ok, rl\<lparr>store := (store rl)[p := cl\<lparr>limiter := l'\<rparr>]\<rparr>)))"

text \<open>
  \<open>allow\<close>: look the client up; create and register its limiter when it is not there,
  otherwise stamp \<open>lastSeen\<close>; then ask the limiter. The clock readings of one call are
  taken at the same instant \<open>now\<close>.
\<close>

definition allow :: "string \<Rightarrow> time \<Rightarrow> RateLimiter \<Rightarrow> error + (bool \<times> RateLimiter)" where
  "allow clientID now rl =
     (case map_of (clients rl) clientID of
        None \<Rightarrow>
          (let p = length (store rl);
               cl = \<lparr>limiter = NewLimiter (rate_Limit (RequestsPerSecond (config rl)))
                                 (sint (BurstSize (config rl))) now,
                     lastSeen = now\<rparr>
           in limiter_Allow p now
                (rl\<lparr>store := store rl @ [cl],
                    clients := AList.update clientID p (clients rl)\<rparr>))
      | Some p \<Rightarrow>
          (case deref (store rl) p of
             Inl e \<Rightarrow> Inl e
           | Inr cl \<Rightarrow>
               limiter_Allow p now (rl\<lparr>store := (store rl)[p := cl\<lparr>lastSeen := now\<rparr>]\<rparr>)))"

subsection \<open>The janitor\<close>

text \<open>
  The body of the \<open>range\<close> loop over the map: every entry's object is read, and the
  entry is deleted when it was last seen before the cutoff. The result does not depend
  on the order in which Go visits the entries.
\<close>

fun sweep_entries ::
  "time \<Rightarrow> ClientLimiter list \<Rightarrow> (string \<times> nat) list \<Rightarrow> error + (string \<times> nat) list" where
  "sweep_entries cutoff h [] = Inr []"
| "sweep_entries cutoff h ((clientID, p) # es) =
     (case deref h p of
        Inl e \<Rightarrow> Inl e
      | Inr cl \<Rightarrow>
          (case sweep_entries cutoff h es of
             Inl e \<Rightarrow> Inl e
           | Inr es' \<Rightarrow>
               Inr (if time_Before (lastSeen cl) cutoff then es' else (clientID, p) # es')))"

text \<open>One tick: \<open>cutoff := time.Now().Add(-rl.config.CleanupInterval * 2)\<close>, then the loop.\<close>

definition sweep :: "time \<Rightarrow> RateLimiter \<Rightarrow> error + RateLimiter" where
  "sweep now rl =
     (let cutoff = time_Add now (- CleanupInterval (config rl) * 2)
      in case sweep_entries cutoff (store rl) (clients rl) of
           Inl e \<Rightarrow> Inl e
         | Inr es \<Rightarrow> Inr (rl\<lparr>clients := es\<rparr>))"

fun sweeps :: "time list \<Rightarrow> RateLimiter \<Rightarrow> error + RateLimiter" where
  "sweeps [] rl = Inr rl"
| "sweeps (t # ts) rl = (case sweep t rl of Inl e \<Rightarrow> Inl e | Inr rl' \<Rightarrow> sweeps ts rl')"

text \<open>
  \<open>cleanupExpiredClients\<close>, run over the instants at which the ticker fires.
  \<open>time.NewTicker\<close> panics on a non-positive interval; otherwise each tick is one sweep.
\<close>

definition cleanupExpiredClients :: "time list \<Rightarrow> RateLimiter \<Rightarrow> error + RateLimiter" where
  "cleanupExpiredClients ticks rl =
     (if sint (CleanupInterval (config rl)) \<le> 0 then Inl NonPositiveTickerInterval
      else sweeps ticks rl)"

subsection \<open>The middleware\<close>

text \<open>
  What \<open>getClientID\<close> reads of a \<open>gin.Context\<close>: the request headers, keyed by header
  name, each with its list of values, and the result of \<open>c.ClientIP()\<close>.
  \<open>c.GetHeader(key)\<close> is the first value of the header, or the empty string.
\<close>

record Context =
  Header :: "string \<rightharpoonup> string list"
  ClientIP :: string

definition GetHeader :: "Context \<Rightarrow> string \<Rightarrow> string" where
  "GetHeader c key = (case Header c key of None \<Rightarrow> [] | Some [] \<Rightarrow> [] | Some (v # _) \<Rightarrow> v)"

definition getClientID :: "Context \<Rightarrow> string" where
  "getClientID c =
     (let xRealIP = GetHeader c ''X-Real-IP'' in
      if xRealIP \<noteq> [] then xRealIP
      else (let xForwardedFor = GetHeader c ''X-Forwarded-For'' in
            if xForwardedFor \<noteq> [] then xForwardedFor
            else ClientIP c))"

datatype outcome = TooManyRequests | Next

text \<open>\<open>RateLimit\<close>: the handler aborts with status 429 when \<open>allow\<close> denies the client.\<close>

definition RateLimit :: "Context \<Rightarrow> time \<Rightarrow> RateLimiter \<Rightarrow> error + (outcome \<times> RateLimiter)" where
  "RateLimit c now rl =
     (let clientID = getClientID c in
      case allow clientID now rl of
        Inl e \<Rightarrow> Inl e
      | Inr (ok, rl') \<Rightarrow> Inr (if \<not> ok then TooManyRequests else Next, rl'))"

text \<open>\<open>DefaultRateLimitConfig\<close> and \<open>StrictRateLimitConfig\<close>; five minutes in nanoseconds.\<close>

definition DefaultRateLimitConfig :: RateLimitConfig where
  "DefaultRateLimitConfig =
     \<lparr>RequestsPerSecond = 10, BurstSize = 20, CleanupInterval = 300000000000\<rparr>"

definition StrictRateLimitConfig :: RateLimitConfig where
  "StrictRateLimitConfig =
     \<lparr>RequestsPerSecond = 5, BurstSize = 10, CleanupInterval = 300000000000\<rparr>"

subsection \<open>Runs of the registry\<close>

text \<open>
  The \<open>ClientLimiter\<close> a client identifier stands for: its map entry, dereferenced.
\<close>

definition lookup :: "RateLimiter \<Rightarrow> string \<Rightarrow> ClientLimiter option" where
  "lookup rl clientID =
     (case map_of (clients rl) clientID of
        None \<Rightarrow> None
      | Some p \<Rightarrow> (case deref (store rl) p of Inl e \<Rightarrow> None | Inr cl \<Rightarrow> Some cl))"

text \<open>
  The request handlers and the janitor all take the mutex, so a run of the registry is
  a sequence of atomic events, each with the clock reading at which it happens: a
  request of a client, or a tick of the janitor's ticker. A panic ends the run.
\<close>

datatype event = Request string | Tick

fun step :: "time \<times> event \<Rightarrow> RateLimiter \<Rightarrow> error + RateLimiter" where
  "step (t, Request clientID) rl =
     (case allow clientID t rl of Inl e \<Rightarrow> Inl e | Inr (ok, rl') \<Rightarrow> Inr rl')"
| "step (t, Tick) rl = cleanupExpiredClients [t] rl"

fun run :: "(time \<times> event) list \<Rightarrow> RateLimiter \<Rightarrow> error + RateLimiter" where
  "run [] rl = Inr rl"
| "run (e # es) rl = (case step e rl of Inl x \<Rightarrow> Inl x | Inr rl' \<Rightarrow> run es rl')"

text \<open>Consecutive requests of one client at the given instants, with their decisions.\<close>

fun allows :: "string \<Rightarrow> time list \<Rightarrow> RateLimiter \<Rightarrow> error + (bool list \<times> RateLimiter)" where
  "allows clientID [] rl = Inr ([], rl)"
| "allows clientID (t # ts) rl =
     (case allow clientID t rl of
        Inl e \<Rightarrow> Inl e
      | Inr (ok, rl') \<Rightarrow>
          (case allows clientID ts rl' of
             Inl e \<Rightarrow> Inl e
           | Inr (oks, rl'') \<Rightarrow> Inr (ok # oks, rl'')))"

subsection \<open>Invariants of the representation\<close>

text \<open>
  Keys are unique, no two keys share an object, and every pointer of the map points
  into the store.
\<close>

definition well_formed :: "RateLimiter \<Rightarrow> bool" where
  "well_formed rl =
     (distinct (map fst (clients rl)) \<and> distinct (map snd (clients rl)) \<and>
      list_all (\<lambda>p. p < length (store rl)) (map snd (clients rl)))"

text \<open>
  What one call of \<open>allow\<close> does to the client's own object, given the object it finds
  (or none): the decision and the object afterwards.
\<close>

definition touch :: "RateLimitConfig \<Rightarrow> time \<Rightarrow> ClientLimiter option \<Rightarrow> bool \<times> ClientLimiter" where
  "touch cfg now c =
     (let l = (case c of
                 None \<Rightarrow> NewLimiter (rate_Limit (RequestsPerSecond cfg)) (sint (BurstSize cfg)) now
               | Some cl \<Rightarrow> limiter cl)
      in case Allow now l of (ok, l') \<Rightarrow> (ok, \<lparr>limiter = l', lastSeen = now\<rparr>))"

text \<open>The token count a limiter holds at \<open>now\<close> once refilled, before a token is taken.\<close>

definition refilled :: "time \<Rightarrow> Limiter \<Rightarrow> real" where
  "refilled now l =
     min (real_of_int (burstSize l))
         (tokens l + seconds (now - lastRefillTime l) * requestsPerSecond l)"

text \<open>Every limiter of the registry carries the configured rate and burst size.\<close>

definition configured :: "RateLimitConfig \<Rightarrow> ClientLimiter \<Rightarrow> bool" where
  "configured cfg cl =
     (requestsPerSecond (limiter cl) = rate_Limit (RequestsPerSecond cfg) \<and>
      burstSize (limiter cl) = sint (BurstSize cfg) \<and>
      tokens (limiter cl) \<le> real_of_int (sint (BurstSize cfg)))"

text \<open>
  \<open>touch\<close> for consecutive calls at the given instants: the decisions and the object
  after the last call.
\<close>

fun touches ::
  "RateLimitConfig \<Rightarrow> time list \<Rightarrow> ClientLimiter option \<Rightarrow> bool list \<times> ClientLimiter option" where
  "touches cfg [] c = ([], c)"
| "touches cfg (t # ts) c =
     (case touch cfg t c of
        (ok, cl) \<Rightarrow> (case touches cfg ts (Some cl) of (oks, c') \<Rightarrow> (ok # oks, c')))"

text \<open>
  The invariant every run from \<open>NewRateLimiter\<close> keeps: a well-formed representation,
  the configuration unchanged, and every client's limiter configured from it.
\<close>

definition registry_inv :: "RateLimitConfig \<Rightarrow> RateLimiter \<Rightarrow> bool" where
  "registry_inv cfg rl = (well_formed rl \<and> config rl = cfg \<and>
                 (\<forall>k cl. lookup rl k = Some cl \<longrightarrow> configured cfg cl))"


section \<open>The registry as a map from clients to their objects\<close>


lemma float64_of_int_integral: "\<exists>z :: int. float64_of_int i = real_of_int z"
  unfolding float64_of_int_def Let_def by (cases "\<bar>i\<bar> \<le> 2 ^ 53") (simp_all only: if_True if_False, blast+)


lemma float64_of_int_exact: "\<bar>i\<bar> \<le> 2 ^ 53 \<Longrightarrow> float64_of_int i = real_of_int i"
  by (simp add: float64_of_int_def)

lemma rate_Limit_integral: "\<exists>z :: int. rate_Limit n = real_of_int z"
  unfolding rate_Limit_def by (rule float64_of_int_integral)


lemma rate_Limit_exact: "\<bar>sint n\<bar> \<le> 2 ^ 53 \<Longrightarrow> rate_Limit n = real_of_int (sint n)"
  unfolding rate_Limit_def by (rule float64_of_int_exact)

lemma rate_Limit_rounds: "rate_Limit 9007199254740993 = 9007199254740992"
  by (simp add: rate_Limit_def float64_of_int_def bitlen_def compute_floorlog)

lemma update_absent: "map_of al k = None \<Longrightarrow> AList.update k v al = al @ [(k, v)]"
  by (induction al) (auto split: if_splits)

lemma map_of_ptr_bound:
  "list_all (\<lambda>p. p < n) (map snd al) \<Longrightarrow> map_of al k = Some p \<Longrightarrow> p < n"
  by (induction al) (auto split: if_splits)

lemma map_of_ptr_inj:
  "distinct (map snd al) \<Longrightarrow> map_of al k = Some p \<Longrightarrow> map_of al k' = Some p \<Longrightarrow> k = k'"
proof (induction al)
  case Nil
  then show ?case by simp
next
  case (Cons e al)
  obtain c q where e: "e = (c, q)" by (cases e)
  have notin: "\<And>x. map_of al x = Some q \<Longrightarrow> False"
    using Cons.prems(1) e by (auto dest!: map_of_SomeD simp: image_iff) 
  show ?case using Cons e notin by (auto split: if_splits)
qed

lemma well_formed_bound:
  "well_formed rl \<Longrightarrow> map_of (clients rl) k = Some p \<Longrightarrow> p < length (store rl)"
  unfolding well_formed_def by (blast intro: map_of_ptr_bound)

lemma well_formed_inj:
  "well_formed rl \<Longrightarrow> map_of (clients rl) k = Some p \<Longrightarrow> map_of (clients rl) k' = Some p \<Longrightarrow> k = k'"
  unfolding well_formed_def by (blast intro: map_of_ptr_inj)

lemma Allow_refilled:
  "Allow now l =
     (1 \<le> refilled now l,
      l\<lparr>tokens := (if 1 \<le> refilled now l then refilled now l - 1 else refilled now l),
        lastRefillTime := now\<rparr>)"
  by (simp add: Allow_def refilled_def Let_def)

lemma ClientLimiter_upd:
  "(cl :: ClientLimiter)\<lparr>lastSeen := t, limiter := l\<rparr> = \<lparr>limiter = l, lastSeen = t\<rparr>"
  by (cases cl) simp

lemma allow_new:
  assumes wf: "well_formed rl" and none: "map_of (clients rl) cid = None"
  shows "\<exists>rl'. allow cid now rl = Inr (fst (touch (config rl) now (lookup rl cid)), rl') \<and>
           well_formed rl' \<and> config rl' = config rl \<and>
           lookup rl' = (lookup rl)(cid \<mapsto> snd (touch (config rl) now (lookup rl cid)))"
proof -
  define cl where "cl = \<lparr>limiter = NewLimiter (rate_Limit (RequestsPerSecond (config rl)))
                                 (sint (BurstSize (config rl))) now, lastSeen = now\<rparr>"
  define ok where "ok = fst (Allow now (limiter cl))"
  define l' where "l' = snd (Allow now (limiter cl))"
  define rl' where "rl' = rl\<lparr>store := store rl @ [cl\<lparr>limiter := l'\<rparr>],
                              clients := clients rl @ [(cid, length (store rl))]\<rparr>"
  have A: "Allow now (limiter cl) = (ok, l')" by (simp add: ok_def l'_def)
  have lk: "lookup rl cid = None" using none by (simp add: lookup_def)
  have t: "touch (config rl) now (lookup rl cid) = (ok, cl\<lparr>limiter := l'\<rparr>)"
    using A by (simp add: touch_def lk cl_def)
  have eq: "allow cid now rl = Inr (ok, rl')"
    using A none
    by (simp add: allow_def Let_def limiter_Allow_def deref_def update_absent rl'_def cl_def[symmetric])
  have nin: "length (store rl) \<notin> snd ` set (clients rl)"
  proof
    assume "length (store rl) \<in> snd ` set (clients rl)"
    then have "\<not> list_all (\<lambda>p. p < length (store rl)) (map snd (clients rl))"
      by (force simp: list_all_iff)
    with wf show False by (simp add: well_formed_def)
  qed
  have kn: "cid \<notin> fst ` set (clients rl)"
    using none by (simp add: map_of_eq_None_iff)
  have wf': "well_formed rl'"
    using wf nin kn by (auto simp: well_formed_def rl'_def list_all_iff)
  have lk': "lookup rl' k = ((lookup rl)(cid \<mapsto> cl\<lparr>limiter := l'\<rparr>)) k" for k
  proof (cases "k = cid")
    case True
    then show ?thesis using none by (simp add: lookup_def rl'_def map_add_def deref_def)
  next
    case False
    show ?thesis
    proof (cases "map_of (clients rl) k")
      case None
      then show ?thesis using False by (simp add: lookup_def rl'_def map_add_def)
    next
      case (Some q)
      then have "q < length (store rl)" using wf by (rule well_formed_bound[rotated])
      then show ?thesis using False Some
        by (simp add: lookup_def rl'_def map_add_def deref_def nth_append)
    qed
  qed
  show ?thesis using eq wf' lk' t by (auto simp: rl'_def)
qed

lemma allow_old:
  assumes wf: "well_formed rl" and some: "map_of (clients rl) cid = Some p"
  shows "\<exists>rl'. allow cid now rl = Inr (fst (touch (config rl) now (lookup rl cid)), rl') \<and>
           well_formed rl' \<and> config rl' = config rl \<and>
           lookup rl' = (lookup rl)(cid \<mapsto> snd (touch (config rl) now (lookup rl cid)))"
proof -
  have p: "p < length (store rl)" using wf some by (rule well_formed_bound)
  define cl where "cl = store rl ! p"
  define ok where "ok = fst (Allow now (limiter cl))"
  define l' where "l' = snd (Allow now (limiter cl))"
  define rl' where "rl' = rl\<lparr>store := (store rl)[p := \<lparr>limiter = l', lastSeen = now\<rparr>]\<rparr>"
  have A: "Allow now (limiter cl) = (ok, l')" by (simp add: ok_def l'_def)
  have lk: "lookup rl cid = Some cl" using some p by (simp add: lookup_def deref_def cl_def)
  have t: "touch (config rl) now (lookup rl cid) = (ok, \<lparr>limiter = l', lastSeen = now\<rparr>)"
    using A by (simp add: touch_def lk)
  have eq: "allow cid now rl = Inr (ok, rl')"
    using A some p
    by (simp add: allow_def Let_def limiter_Allow_def deref_def rl'_def cl_def[symmetric]
        ClientLimiter_upd)
  have wf': "well_formed rl'"
    using wf by (simp add: well_formed_def rl'_def)
  have lk': "lookup rl' k = ((lookup rl)(cid \<mapsto> \<lparr>limiter = l', lastSeen = now\<rparr>)) k" for k
  proof (cases "k = cid")
    case True
    then show ?thesis using some p by (simp add: lookup_def rl'_def deref_def)
  next
    case False
    show ?thesis
    proof (cases "map_of (clients rl) k")
      case None
      then show ?thesis using False by (simp add: lookup_def rl'_def)
    next
      case (Some q)
      then have "q \<noteq> p" using well_formed_inj[OF wf Some, of cid] some False by auto
      then show ?thesis using False Some
        by (simp add: lookup_def rl'_def deref_def)
    qed
  qed
  show ?thesis using eq wf' lk' t by (auto simp: rl'_def)
qed

lemma allow_touch:
  assumes "well_formed rl"
  shows "\<exists>rl'. allow cid now rl = Inr (fst (touch (config rl) now (lookup rl cid)), rl') \<and>
           well_formed rl' \<and> config rl' = config rl \<and>
           lookup rl' = (lookup rl)(cid \<mapsto> snd (touch (config rl) now (lookup rl cid)))"
  using allow_new[OF assms] allow_old[OF assms] by (cases "map_of (clients rl) cid") blast+



lemma sweep_entries_filter:
  "list_all (\<lambda>p. p < length h) (map snd es) \<Longrightarrow>
   sweep_entries cutoff h es = Inr (filter (\<lambda>(c, p). \<not> lastSeen (h ! p) < cutoff) es)"
  by (induction es) (auto simp: deref_def time_Before_def)

lemma map_of_filter_distinct:
  "distinct (map fst es) \<Longrightarrow>
   map_of (filter P es) k =
     (case map_of es k of None \<Rightarrow> None | Some p \<Rightarrow> if P (k, p) then Some p else None)"
proof (induction es)
  case Nil
  then show ?case by simp
next
  case (Cons e es)
  obtain c q where e: "e = (c, q)" by (cases e)
  have "map_of es c = None" using Cons.prems e by (simp add: map_of_eq_None_iff)
  then show ?case using Cons e by (auto split: option.splits)
qed

lemma sweep_lookup:
  assumes wf: "well_formed rl"
  shows "\<exists>rl'. sweep now rl = Inr rl' \<and> well_formed rl' \<and> config rl' = config rl \<and>
           (\<forall>k. lookup rl' k =
              (case lookup rl k of
                 None \<Rightarrow> None
               | Some cl \<Rightarrow>
                   if lastSeen cl < time_Add now (- CleanupInterval (config rl) * 2) then None
                   else Some cl))"
proof -
  define cutoff where "cutoff = time_Add now (- CleanupInterval (config rl) * 2)"
  define P where "P = (\<lambda>(c :: string, p). \<not> lastSeen (store rl ! p) < cutoff)"
  define rl' where "rl' = rl\<lparr>clients := filter P (clients rl)\<rparr>"
  have bnd: "list_all (\<lambda>p. p < length (store rl)) (map snd (clients rl))"
    using wf by (simp add: well_formed_def)
  have eq: "sweep now rl = Inr rl'"
    unfolding sweep_def Let_def rl'_def P_def cutoff_def
    by (simp only: sweep_entries_filter[OF bnd] sum.case)
  have wf': "well_formed rl'"
    using wf by (auto simp: well_formed_def rl'_def list_all_iff distinct_map_filter)
  have d: "distinct (map fst (clients rl))" using wf by (simp add: well_formed_def)
  have lk: "lookup rl' k =
      (case lookup rl k of None \<Rightarrow> None
       | Some cl \<Rightarrow> if lastSeen cl < cutoff then None else Some cl)" for k
  proof (cases "map_of (clients rl) k")
    case None
    then show ?thesis by (simp add: lookup_def rl'_def map_of_filter_distinct[OF d])
  next
    case (Some q)
    then have "q < length (store rl)" using wf by (rule well_formed_bound[rotated])
    then show ?thesis using Some
      by (simp add: lookup_def rl'_def map_of_filter_distinct[OF d] deref_def P_def)
  qed
  have c: "config rl' = config rl" by (simp add: rl'_def)
  show ?thesis using eq wf' c lk[unfolded cutoff_def] by blast
qed

lemma refilled_le_burst: "refilled now l \<le> real_of_int (burstSize l)"
  by (simp add: refilled_def)

lemma touch_eq:
  "touch cfg now c =
     (let l = (case c of
                 None \<Rightarrow> NewLimiter (rate_Limit (RequestsPerSecond cfg)) (sint (BurstSize cfg)) now
               | Some cl \<Rightarrow> limiter cl)
      in (1 \<le> refilled now l,
          \<lparr>limiter = l\<lparr>tokens := (if 1 \<le> refilled now l then refilled now l - 1
                                     else refilled now l),
                        lastRefillTime := now\<rparr>,
           lastSeen = now\<rparr>))"
  by (simp add: touch_def Allow_refilled Let_def)

lemma touch_configured:
  assumes "\<And>cl. c = Some cl \<Longrightarrow> configured cfg cl"
  shows "configured cfg (snd (touch cfg now c))"
proof (cases c)
  case None
  show ?thesis using refilled_le_burst[of now "NewLimiter (rate_Limit (RequestsPerSecond cfg)) (sint (BurstSize cfg)) now"]
    by (simp add: None touch_eq configured_def NewLimiter_def Let_def)
next
  case (Some cl)
  then have "configured cfg cl" by (rule assms)
  then show ?thesis using refilled_le_burst[of now "limiter cl"]
    by (auto simp add: Some touch_eq configured_def Let_def)
qed


lemma registry_inv_New: "registry_inv cfg (NewRateLimiter cfg)"
  by (simp add: registry_inv_def NewRateLimiter_def well_formed_def lookup_def)

lemma registry_inv_allow:
  assumes "registry_inv cfg rl"
  shows "\<exists>rl'. allow cid now rl = Inr (fst (touch cfg now (lookup rl cid)), rl') \<and> registry_inv cfg rl' \<and>
           lookup rl' = (lookup rl)(cid \<mapsto> snd (touch cfg now (lookup rl cid)))"
proof -
  have wf: "well_formed rl" and c: "config rl = cfg" using assms by (simp_all add: registry_inv_def)
  obtain rl' where a: "allow cid now rl = Inr (fst (touch cfg now (lookup rl cid)), rl')"
    and wf': "well_formed rl'" and c': "config rl' = cfg"
    and lk: "lookup rl' = (lookup rl)(cid \<mapsto> snd (touch cfg now (lookup rl cid)))"
    using allow_touch[OF wf, of cid now] c by auto
  have "configured cfg (snd (touch cfg now (lookup rl cid)))"
    using assms by (intro touch_configured) (simp add: registry_inv_def)
  then have "registry_inv cfg rl'" using wf' c' lk assms by (auto simp: registry_inv_def)
  then show ?thesis using a lk by blast
qed

lemma registry_inv_sweep:
  assumes "registry_inv cfg rl"
  shows "\<exists>rl'. sweep now rl = Inr rl' \<and> registry_inv cfg rl' \<and>
           (\<forall>k. lookup rl' k =
              (case lookup rl k of
                 None \<Rightarrow> None
               | Some cl \<Rightarrow>
                   if lastSeen cl < time_Add now (- CleanupInterval cfg * 2) then None
                   else Some cl))"
proof -
  have wf: "well_formed rl" and c: "config rl = cfg" using assms by (simp_all add: registry_inv_def)
  obtain rl' where a: "sweep now rl = Inr rl'"
    and wf': "well_formed rl'" and c': "config rl' = cfg"
    and lk: "\<forall>k. lookup rl' k =
              (case lookup rl k of
                 None \<Rightarrow> None
               | Some cl \<Rightarrow>
                   if lastSeen cl < time_Add now (- CleanupInterval cfg * 2) then None
                   else Some cl)"
    using sweep_lookup[OF wf, of now] c by auto
  have "registry_inv cfg rl'" using wf' c' lk assms by (auto simp: registry_inv_def split: option.splits if_splits)
  then show ?thesis using a lk by blast
qed

lemma registry_inv_step: "registry_inv cfg rl \<Longrightarrow> step e rl = Inr rl' \<Longrightarrow> registry_inv cfg rl'"
proof (cases e)
  case (Pair t ev)
  assume i: "registry_inv cfg rl" and s: "step e rl = Inr rl'"
  show ?thesis
  proof (cases ev)
    case (Request cid)
    then show ?thesis using registry_inv_allow[OF i, of cid t] s Pair by auto
  next
    case Tick
    then show ?thesis using registry_inv_sweep[OF i, of t] s Pair
      by (auto simp: cleanupExpiredClients_def split: if_splits sum.splits)
  qed
qed

lemma registry_inv_run: "registry_inv cfg rl \<Longrightarrow> run evs rl = Inr rl' \<Longrightarrow> registry_inv cfg rl'"
proof (induction evs arbitrary: rl)
  case Nil
  then show ?case by simp
next
  case (Cons e evs)
  then show ?case by (auto split: sum.splits dest: registry_inv_step)
qed

lemma registry_inv_reach: "run evs (NewRateLimiter cfg) = Inr rl \<Longrightarrow> registry_inv cfg rl"
  using registry_inv_run[OF registry_inv_New] .

lemma touches_Cons:
  "fst (touches cfg (t # ts) c) =
     fst (touch cfg t c) # fst (touches cfg ts (Some (snd (touch cfg t c))))"
  "snd (touches cfg (t # ts) c) = snd (touches cfg ts (Some (snd (touch cfg t c))))"
  by (simp_all split: prod.splits)

lemma registry_inv_allows:
  assumes "registry_inv cfg rl"
  shows "\<exists>rl'. allows cid ts rl = Inr (fst (touches cfg ts (lookup rl cid)), rl') \<and>
           registry_inv cfg rl' \<and>
           lookup rl' cid = snd (touches cfg ts (lookup rl cid)) \<and>
           (\<forall>k. k \<noteq> cid \<longrightarrow> lookup rl' k = lookup rl k)"
  using assms
proof (induction ts arbitrary: rl)
  case Nil
  then show ?case by simp
next
  case (Cons t ts)
  obtain rl1 where a: "allow cid t rl = Inr (fst (touch cfg t (lookup rl cid)), rl1)"
    and i1: "registry_inv cfg rl1"
    and lk1: "lookup rl1 = (lookup rl)(cid \<mapsto> snd (touch cfg t (lookup rl cid)))"
    using registry_inv_allow[OF Cons.prems, of cid t] by blast
  obtain rl2 where b: "allows cid ts rl1 = Inr (fst (touches cfg ts (lookup rl1 cid)), rl2)"
    and i2: "registry_inv cfg rl2"
    and lk2: "lookup rl2 cid = snd (touches cfg ts (lookup rl1 cid))"
    and fr: "\<forall>k. k \<noteq> cid \<longrightarrow> lookup rl2 k = lookup rl1 k"
    using Cons.IH[OF i1] by blast
  have c: "lookup rl1 cid = Some (snd (touch cfg t (lookup rl cid)))" by (simp add: lk1)
  have "allows cid (t # ts) rl = Inr (fst (touches cfg (t # ts) (lookup rl cid)), rl2)"
    using a b c by (simp add: touches_Cons del: touches.simps)
  moreover have "lookup rl2 cid = snd (touches cfg (t # ts) (lookup rl cid))"
    using lk2 c by (simp add: touches_Cons del: touches.simps)
  moreover have "\<forall>k. k \<noteq> cid \<longrightarrow> lookup rl2 k = lookup rl k"
    using fr lk1 by simp
  ultimately show ?case using i2 by blast
qed

lemma touches_same_instant:
  "fst (touches cfg (replicate n now) c) =
     map (\<lambda>k. real (Suc k) \<le>
                 refilled now
                   (case c of
                      None \<Rightarrow> NewLimiter (rate_Limit (RequestsPerSecond cfg))
                                 (sint (BurstSize cfg)) now
                    | Some cl \<Rightarrow> limiter cl))
         [0..<n]"
proof (induction n arbitrary: c)
  case 0
  then show ?case by simp
next
  case (Suc n)
  define l where "l = (case c of
                 None \<Rightarrow> NewLimiter (rate_Limit (RequestsPerSecond cfg)) (sint (BurstSize cfg)) now
               | Some cl \<Rightarrow> limiter cl)"
  define R where "R = refilled now l"
  define l' where "l' = l\<lparr>tokens := (if 1 \<le> R then R - 1 else R), lastRefillTime := now\<rparr>"
  have t: "touch cfg now c = (1 \<le> R, \<lparr>limiter = l', lastSeen = now\<rparr>)"
    by (simp add: touch_eq Let_def l_def[symmetric] R_def l'_def)
  have Rb: "R \<le> real_of_int (burstSize l)" unfolding R_def by (rule refilled_le_burst)
  have R': "refilled now l' = (if 1 \<le> R then R - 1 else R)"
    using Rb by (simp add: refilled_def l'_def seconds_def)
  have IH: "fst (touches cfg (replicate n now) (Some \<lparr>limiter = l', lastSeen = now\<rparr>)) =
      map (\<lambda>k. real (Suc k) \<le> refilled now l') [0..<n]"
    using Suc.IH[of "Some \<lparr>limiter = l', lastSeen = now\<rparr>"] by simp
  have pt: "(real (Suc k) \<le> refilled now l') = (real (Suc (Suc k)) \<le> R)" for k
    unfolding R' by auto
  have "fst (touches cfg (replicate (Suc n) now) c) =
          (1 \<le> R) # map (\<lambda>k. real (Suc (Suc k)) \<le> R) [0..<n]"
    using t IH pt by (simp add: touches_Cons del: touches.simps)
  also have "\<dots> = map (\<lambda>k. real (Suc k) \<le> R) [0..<Suc n]"
    by (simp add: map_upt_Suc del: upt_Suc)
  finally show ?case by (simp only: R_def l_def)
qed

lemma registry_inv_decision:
  assumes "registry_inv cfg rl"
  shows "\<exists>rl'. allow cid now rl = Inr (fst (touch cfg now (lookup rl cid)), rl')"
  using registry_inv_allow[OF assms, of cid now] by blast

lemmas registry_defs =
  NewRateLimiter_def allow_def limiter_Allow_def deref_def Allow_def NewLimiter_def
  rate_Limit_def float64_of_int_def seconds_def Let_def cleanupExpiredClients_def sweep_def time_Add_def
  time_Before_def lookup_def DefaultRateLimitConfig_def StrictRateLimitConfig_def

lemma sint_neg_twice:
  fixes d :: "64 word"
  assumes "0 < sint d" and "sint d \<le> 2 ^ 62"
  shows "sint (- d * 2) = - (2 * sint d)"
proof -
  have m: "sint (- d) = - sint d"
    using assms by (simp add: sint_word_minus signed_take_bit_int_eq_self)
  have "sint (- d * 2) = signed_take_bit 63 (sint (- d) * sint (2 :: 64 word))"
    using sint_word_mult[of "- d" "2 :: 64 word"] by simp
  also have "\<dots> = signed_take_bit 63 (- (2 * sint d))"
    by (simp add: m mult.commute)
  also have "\<dots> = - (2 * sint d)"
    using assms by (intro signed_take_bit_int_eq_self) simp_all
  finally show ?thesis .
qed

lemma decisions_prefix:
  "map (\<lambda>k. k < m) [0..<n] = replicate (min n m) True @ replicate (n - m) False"
  by (rule nth_equalityI) (auto simp: nth_append)






lemma drained_decisions:
  assumes i: "registry_inv cfg rl"
    and s: "lookup rl clientID = Some cl"
    and z: "tokens (limiter cl) = 0"
  shows "\<exists>rl'. allows clientID (replicate n now) rl =
           Inr (replicate
                  (min n (nat (min (sint (BurstSize cfg))
                     \<lfloor>rate_Limit (RequestsPerSecond cfg) *
                        seconds (now - lastRefillTime (limiter cl))\<rfloor>))) True @
                replicate
                  (n - nat (min (sint (BurstSize cfg))
                     \<lfloor>rate_Limit (RequestsPerSecond cfg) *
                        seconds (now - lastRefillTime (limiter cl))\<rfloor>)) False,
                rl')"
proof -
  define B where "B = sint (BurstSize cfg)"
  define x where "x = rate_Limit (RequestsPerSecond cfg) *
                        seconds (now - lastRefillTime (limiter cl))"
  define m where "m = nat (min B \<lfloor>x\<rfloor>)"
  have c: "configured cfg cl" using i s by (auto simp: registry_inv_def)
  obtain rl' where a: "allows clientID (replicate n now) rl =
      Inr (fst (touches cfg (replicate n now) (lookup rl clientID)), rl')"
    using registry_inv_allows[OF i, of clientID "replicate n now"] by blast
  have R: "refilled now (limiter cl) = min (real_of_int B) x"
    using c z by (simp add: refilled_def configured_def B_def x_def mult.commute)
  have pt: "(real (Suc k) \<le> min (real_of_int B) x) = (k < m)" for k
  proof -
    have 1: "(real (Suc k) \<le> real_of_int B) = (int (Suc k) \<le> B)"
      by (metis of_int_le_iff of_int_of_nat_eq)
    have 2: "(real (Suc k) \<le> x) = (int (Suc k) \<le> \<lfloor>x\<rfloor>)"
      by (metis le_floor_iff of_int_of_nat_eq)
    have "(real (Suc k) \<le> min (real_of_int B) x) = (real (Suc k) \<le> real_of_int B \<and> real (Suc k) \<le> x)"
      by (rule min.bounded_iff)
    then show ?thesis unfolding 1 2 m_def by auto
  qed
  have "fst (touches cfg (replicate n now) (lookup rl clientID)) = map (\<lambda>k. k < m) [0..<n]"
    unfolding touches_same_instant s by (simp only: option.case R pt)
  also have "\<dots> = replicate (min n m) True @ replicate (n - m) False"
    by (rule decisions_prefix)
  finally show ?thesis using a by (simp add: m_def B_def x_def)
qed

lemma wait_keeps:
  assumes "registry_inv cfg rl0" and "run wait rl0 = Inr rl"
    and "\<forall>e \<in> set wait. snd e \<noteq> Request clientID"
  shows "registry_inv cfg rl \<and> (lookup rl clientID = None \<or> lookup rl clientID = lookup rl0 clientID)"
  using assms
proof (induction wait arbitrary: rl0)
  case Nil
  then show ?case by simp
next
  case (Cons e wait)
  obtain t ev where e: "e = (t, ev)" by (cases e)
  obtain rl1 where s: "step (t, ev) rl0 = Inr rl1" and rest: "run wait rl1 = Inr rl"
    using Cons.prems(2) e by (auto split: sum.splits)
  have i1: "registry_inv cfg rl1" using Cons.prems(1) s by (rule registry_inv_step)
  have k1: "lookup rl1 clientID = None \<or> lookup rl1 clientID = lookup rl0 clientID"
  proof (cases ev)
    case (Request k)
    then have ne: "k \<noteq> clientID" using Cons.prems(3) e by auto
    obtain r where a: "allow k t rl0 = Inr (fst (touch cfg t (lookup rl0 k)), r)"
      and lk: "lookup r = (lookup rl0)(k \<mapsto> snd (touch cfg t (lookup rl0 k)))"
      using registry_inv_allow[OF Cons.prems(1), of k t] by blast
    have "rl1 = r" using s a Request by simp
    then show ?thesis using lk ne by simp
  next
    case Tick
    obtain r where a: "sweep t rl0 = Inr r"
      and lk: "\<forall>k. lookup r k =
              (case lookup rl0 k of
                 None \<Rightarrow> None
               | Some cl \<Rightarrow>
                   if lastSeen cl < time_Add t (- CleanupInterval cfg * 2) then None
                   else Some cl)"
      using registry_inv_sweep[OF Cons.prems(1), of t] by blast
    have "rl1 = r" using s a Tick by (simp add: cleanupExpiredClients_def split: if_splits)
    moreover have "lookup r clientID = None \<or> lookup r clientID = lookup rl0 clientID"
      unfolding lk[rule_format] by (simp split: option.splits)
    ultimately show ?thesis by simp
  qed
  have "registry_inv cfg rl \<and>
        (lookup rl clientID = None \<or> lookup rl clientID = lookup rl1 clientID)"
    using Cons.IH[OF i1 rest] Cons.prems(3) by simp
  then show ?case using k1 by auto
qed

lemma seconds_telescope:
  "r * seconds (a - t0) + seconds (u - a) * r = r * seconds (u - t0)"
  by (simp add: seconds_def field_simps)

lemma touches_polls:
  assumes "1 \<le> burstSize (limiter cl)"
    and "tokens (limiter cl) =
           requestsPerSecond (limiter cl) * seconds (lastRefillTime (limiter cl) - t0)"
    and "\<forall>u \<in> set ts. requestsPerSecond (limiter cl) * seconds (u - t0) < 1"
    and "1 \<le> requestsPerSecond (limiter cl) * seconds (t - t0)"
  shows "fst (touches cfg (ts @ [t]) (Some cl)) = replicate (length ts) False @ [True]"
  using assms
proof (induction ts arbitrary: cl)
  case Nil
  have "refilled t (limiter cl) =
          min (real_of_int (burstSize (limiter cl)))
              (requestsPerSecond (limiter cl) * seconds (t - t0))"
    by (simp only: refilled_def Nil.prems(2) seconds_telescope)
  then have "1 \<le> refilled t (limiter cl)" using Nil.prems(1,4) by simp
  then show ?case by (simp add: touch_eq Let_def)
next
  case (Cons u ts)
  define l where "l = limiter cl"
  define R where "R = refilled u l"
  define cl' where "cl' = \<lparr>limiter = l\<lparr>tokens := R, lastRefillTime := u\<rparr>, lastSeen = u\<rparr>"
  have lt: "requestsPerSecond l * seconds (u - t0) < 1" using Cons.prems(3) by (simp add: l_def)
  have "R = min (real_of_int (burstSize l)) (requestsPerSecond l * seconds (u - t0))"
    by (simp only: R_def refilled_def l_def Cons.prems(2) seconds_telescope)
  then have R: "R = requestsPerSecond l * seconds (u - t0)"
    using Cons.prems(1) lt by (simp add: l_def)
  have t: "touch cfg u (Some cl) = (False, cl')"
    using R lt by (simp add: touch_eq Let_def l_def[symmetric] R_def[symmetric] cl'_def)
  have "fst (touches cfg (ts @ [t]) (Some cl')) = replicate (length ts) False @ [True]"
    using Cons.prems by (intro Cons.IH) (simp_all add: cl'_def R l_def)
  then show ?case using t by (simp add: touches_Cons del: touches.simps)
qed

section \<open>Client identifier resolution\<close>

text \<open>
  C9. The rate-limit key of a request is the X-Real-IP header value when that is
  non-empty, otherwise the X-Forwarded-For header value when that is non-empty,
  otherwise the address \<open>c.ClientIP()\<close> reports; and this key is the one the middleware
  hands to \<open>allow\<close>.
\<close>

theorem getClientID_precedence:
  "(GetHeader c ''X-Real-IP'' \<noteq> [] \<longrightarrow> getClientID c = GetHeader c ''X-Real-IP'') \<and>
   (GetHeader c ''X-Real-IP'' = [] \<and> GetHeader c ''X-Forwarded-For'' \<noteq> [] \<longrightarrow>
      getClientID c = GetHeader c ''X-Forwarded-For'') \<and>
   (GetHeader c ''X-Real-IP'' = [] \<and> GetHeader c ''X-Forwarded-For'' = [] \<longrightarrow>
      getClientID c = ClientIP c) \<and>
   RateLimit c now rl =
     (case allow (getClientID c) now rl of
        Inl e \<Rightarrow> Inl e
      | Inr (ok, rl') \<Rightarrow> Inr (if ok then Next else TooManyRequests, rl'))"
  by (auto simp: getClientID_def RateLimit_def Let_def split: sum.splits)

theorem getClientID_precedence_witness:
  "getClientID \<lparr>Header = [''X-Real-IP'' \<mapsto> [''203.0.113.9''],
                            ''X-Forwarded-For'' \<mapsto> [''10.0.0.7'']],
                 ClientIP = ''192.0.2.1''\<rparr> = ''203.0.113.9'' \<and>
   getClientID \<lparr>Header = [''X-Real-IP'' \<mapsto> [[]],
                            ''X-Forwarded-For'' \<mapsto> [''10.0.0.7'', ''10.0.0.8'']],
                 ClientIP = ''192.0.2.1''\<rparr> = ''10.0.0.7'' \<and>
   getClientID \<lparr>Header = Map.empty, ClientIP = ''192.0.2.1''\<rparr> = ''192.0.2.1''"
  using
    getClientID_precedence
      [of "\<lparr>Header = [''X-Real-IP'' \<mapsto> [''203.0.113.9''],
                        ''X-Forwarded-For'' \<mapsto> [''10.0.0.7'']],
             ClientIP = ''192.0.2.1''\<rparr>"]
    getClientID_precedence
      [of "\<lparr>Header = [''X-Real-IP'' \<mapsto> [[]],
                        ''X-Forwarded-For'' \<mapsto> [''10.0.0.7'', ''10.0.0.8'']],
             ClientIP = ''192.0.2.1''\<rparr>"]
    getClientID_precedence [of "\<lparr>Header = Map.empty, ClientIP = ''192.0.2.1''\<rparr>"]
  by (simp add: GetHeader_def)

section \<open>Totality of \<open>allow\<close>\<close>

text \<open>
  C8. In every state the registry reaches from \<open>NewRateLimiter\<close>, \<open>allow\<close> returns a
  decision and does not panic, for every client identifier (the empty string included,
  seen before or not) and at every instant; afterwards the identifier has a state in
  the registry, stamped with the instant of the call, so the state of an unseen
  identifier is created by that call.
\<close>

theorem allow_total:
  assumes "run evs (NewRateLimiter cfg) = Inr rl"
  shows "\<exists>ok rl' cl. allow clientID now rl = Inr (ok, rl') \<and>
           lookup rl' clientID = Some cl \<and> lastSeen cl = now"
proof -
  have i: "registry_inv cfg rl" using assms by (rule registry_inv_reach)
  obtain rl' where a: "allow clientID now rl = Inr (fst (touch cfg now (lookup rl clientID)), rl')"
    and lk: "lookup rl' = (lookup rl)(clientID \<mapsto> snd (touch cfg now (lookup rl clientID)))"
    using registry_inv_allow[OF i, of clientID now] by blast
  have "lastSeen (snd (touch cfg now (lookup rl clientID))) = now"
    by (simp add: touch_eq Let_def)
  then show ?thesis using a lk by auto
qed

theorem allow_total_witness:
  "run [(0, Request ''a''), (5, Tick)] (NewRateLimiter DefaultRateLimitConfig) =
     Inr \<lparr>clients = [(''a'', 0)],
          store = [\<lparr>limiter = \<lparr>requestsPerSecond = 10, burstSize = 20, tokens = 19,
                                lastRefillTime = 0\<rparr>,
                    lastSeen = 0\<rparr>],
          config = DefaultRateLimitConfig\<rparr> \<and>
   (\<exists>ok rl' cl.
      allow [] 7
        \<lparr>clients = [(''a'', 0)],
         store = [\<lparr>limiter = \<lparr>requestsPerSecond = 10, burstSize = 20, tokens = 19,
                               lastRefillTime = 0\<rparr>,
                   lastSeen = 0\<rparr>],
         config = DefaultRateLimitConfig\<rparr> = Inr (ok, rl') \<and>
      lookup rl' [] = Some cl \<and> lastSeen cl = 7)"
proof -
  have h: "run [(0, Request ''a''), (5, Tick)] (NewRateLimiter DefaultRateLimitConfig) =
     Inr \<lparr>clients = [(''a'', 0)],
          store = [\<lparr>limiter = \<lparr>requestsPerSecond = 10, burstSize = 20, tokens = 19,
                                lastRefillTime = 0\<rparr>,
                    lastSeen = 0\<rparr>],
          config = DefaultRateLimitConfig\<rparr>"
    by (simp add: registry_defs)
  show ?thesis using h allow_total[OF h, of "[]" 7] by blast
qed

section \<open>Independence of clients\<close>

text \<open>
  C7. For distinct client identifiers A and B, any sequence of \<open>allow\<close> calls for A, at
  any instants, leaves the state of B as it was; the next request of B is then decided
  as it would have been without the calls for A, and leaves B in the same state.
\<close>

theorem allow_frame:
  assumes "run evs (NewRateLimiter cfg) = Inr rl" and "A \<noteq> B"
  shows "\<exists>oks rl'. allows A ts rl = Inr (oks, rl') \<and> lookup rl' B = lookup rl B \<and>
           (\<forall>t. \<exists>ok r1 r2. allow B t rl' = Inr (ok, r1) \<and> allow B t rl = Inr (ok, r2) \<and>
                   lookup r1 B = lookup r2 B)"
proof -
  have i: "registry_inv cfg rl" using assms(1) by (rule registry_inv_reach)
  obtain rl' where a: "allows A ts rl = Inr (fst (touches cfg ts (lookup rl A)), rl')"
    and i': "registry_inv cfg rl'"
    and fr: "\<forall>k. k \<noteq> A \<longrightarrow> lookup rl' k = lookup rl k"
    using registry_inv_allows[OF i, of A ts] by blast
  have B: "lookup rl' B = lookup rl B" using fr assms(2) by simp
  have "\<exists>ok r1 r2. allow B t rl' = Inr (ok, r1) \<and> allow B t rl = Inr (ok, r2) \<and>
                   lookup r1 B = lookup r2 B" for t
    using registry_inv_allow[OF i, of B t] registry_inv_allow[OF i', of B t] B by auto
  then show ?thesis using a B by blast
qed

text \<open>
  A client A that exhausts its burst of three leaves the client B, seen before, with its
  two tokens, and the next request of B is admitted.
\<close>

theorem allow_frame_witness:
  "run [(0, Request ''B'')] (NewRateLimiter \<lparr>RequestsPerSecond = 1, BurstSize = 3, CleanupInterval = 1000000000\<rparr>) =
     Inr \<lparr>clients = [(''B'', 0)],
         store = [\<lparr>limiter = \<lparr>requestsPerSecond = 1, burstSize = 3, tokens = 2,
                               lastRefillTime = 0\<rparr>,
                   lastSeen = 0\<rparr>],
         config = \<lparr>RequestsPerSecond = 1, BurstSize = 3, CleanupInterval = 1000000000\<rparr>\<rparr> \<and>
   ''A'' \<noteq> ''B'' \<and>
   allows ''A'' [1, 1, 1, 1]
        \<lparr>clients = [(''B'', 0)],
         store = [\<lparr>limiter = \<lparr>requestsPerSecond = 1, burstSize = 3, tokens = 2,
                               lastRefillTime = 0\<rparr>,
                   lastSeen = 0\<rparr>],
         config = \<lparr>RequestsPerSecond = 1, BurstSize = 3, CleanupInterval = 1000000000\<rparr>\<rparr> =
     Inr ([True, True, True, False],
        \<lparr>clients = [(''B'', 0), (''A'', 1)],
         store = [\<lparr>limiter = \<lparr>requestsPerSecond = 1, burstSize = 3, tokens = 2,
                               lastRefillTime = 0\<rparr>,
                   lastSeen = 0\<rparr>,
                  \<lparr>limiter = \<lparr>requestsPerSecond = 1, burstSize = 3, tokens = 0,
                               lastRefillTime = 1\<rparr>,
                   lastSeen = 1\<rparr>],
         config = \<lparr>RequestsPerSecond = 1, BurstSize = 3, CleanupInterval = 1000000000\<rparr>\<rparr>) \<and>
   (\<exists>r1 r2.
      allow ''B'' 1
        \<lparr>clients = [(''B'', 0), (''A'', 1)],
         store = [\<lparr>limiter = \<lparr>requestsPerSecond = 1, burstSize = 3, tokens = 2,
                               lastRefillTime = 0\<rparr>,
                   lastSeen = 0\<rparr>,
                  \<lparr>limiter = \<lparr>requestsPerSecond = 1, burstSize = 3, tokens = 0,
                               lastRefillTime = 1\<rparr>,
                   lastSeen = 1\<rparr>],
         config = \<lparr>RequestsPerSecond = 1, BurstSize = 3, CleanupInterval = 1000000000\<rparr>\<rparr> = Inr (True, r1) \<and>
      allow ''B'' 1
        \<lparr>clients = [(''B'', 0)],
         store = [\<lparr>limiter = \<lparr>requestsPerSecond = 1, burstSize = 3, tokens = 2,
                               lastRefillTime = 0\<rparr>,
                   lastSeen = 0\<rparr>],
         config = \<lparr>RequestsPerSecond = 1, BurstSize = 3, CleanupInterval = 1000000000\<rparr>\<rparr> = Inr (True, r2) \<and>
      lookup r1 ''B'' = lookup r2 ''B'')"
proof -
  have h: "run [(0, Request ''B'')] (NewRateLimiter \<lparr>RequestsPerSecond = 1, BurstSize = 3, CleanupInterval = 1000000000\<rparr>) =
     Inr \<lparr>clients = [(''B'', 0)],
         store = [\<lparr>limiter = \<lparr>requestsPerSecond = 1, burstSize = 3, tokens = 2,
                               lastRefillTime = 0\<rparr>,
                   lastSeen = 0\<rparr>],
         config = \<lparr>RequestsPerSecond = 1, BurstSize = 3, CleanupInterval = 1000000000\<rparr>\<rparr>"
    by (simp add: registry_defs)
  have d: "''A'' \<noteq> ''B''" by simp
  have e: "allows ''A'' [1, 1, 1, 1]
        \<lparr>clients = [(''B'', 0)],
         store = [\<lparr>limiter = \<lparr>requestsPerSecond = 1, burstSize = 3, tokens = 2,
                               lastRefillTime = 0\<rparr>,
                   lastSeen = 0\<rparr>],
         config = \<lparr>RequestsPerSecond = 1, BurstSize = 3, CleanupInterval = 1000000000\<rparr>\<rparr> =
     Inr ([True, True, True, False],
        \<lparr>clients = [(''B'', 0), (''A'', 1)],
         store = [\<lparr>limiter = \<lparr>requestsPerSecond = 1, burstSize = 3, tokens = 2,
                               lastRefillTime = 0\<rparr>,
                   lastSeen = 0\<rparr>,
                  \<lparr>limiter = \<lparr>requestsPerSecond = 1, burstSize = 3, tokens = 0,
                               lastRefillTime = 1\<rparr>,
                   lastSeen = 1\<rparr>],
         config = \<lparr>RequestsPerSecond = 1, BurstSize = 3, CleanupInterval = 1000000000\<rparr>\<rparr>)"
    by (simp add: registry_defs)
  have b: "\<exists>r2. allow ''B'' 1
        \<lparr>clients = [(''B'', 0)],
         store = [\<lparr>limiter = \<lparr>requestsPerSecond = 1, burstSize = 3, tokens = 2,
                               lastRefillTime = 0\<rparr>,
                   lastSeen = 0\<rparr>],
         config = \<lparr>RequestsPerSecond = 1, BurstSize = 3, CleanupInterval = 1000000000\<rparr>\<rparr> = Inr (True, r2)"
    by (simp add: registry_defs)
  obtain oks rl' where a: "allows ''A'' [1, 1, 1, 1]
        \<lparr>clients = [(''B'', 0)],
         store = [\<lparr>limiter = \<lparr>requestsPerSecond = 1, burstSize = 3, tokens = 2,
                               lastRefillTime = 0\<rparr>,
                   lastSeen = 0\<rparr>],
         config = \<lparr>RequestsPerSecond = 1, BurstSize = 3, CleanupInterval = 1000000000\<rparr>\<rparr> = Inr (oks, rl')"
    and f: "\<forall>t. \<exists>ok r1 r2. allow ''B'' t rl' = Inr (ok, r1) \<and>
          allow ''B'' t
        \<lparr>clients = [(''B'', 0)],
         store = [\<lparr>limiter = \<lparr>requestsPerSecond = 1, burstSize = 3, tokens = 2,
                               lastRefillTime = 0\<rparr>,
                   lastSeen = 0\<rparr>],
         config = \<lparr>RequestsPerSecond = 1, BurstSize = 3, CleanupInterval = 1000000000\<rparr>\<rparr> = Inr (ok, r2) \<and>
          lookup r1 ''B'' = lookup r2 ''B''"
    using allow_frame[OF h d, of "[1, 1, 1, 1]"] by blast
  have y: "rl' =
        \<lparr>clients = [(''B'', 0), (''A'', 1)],
         store = [\<lparr>limiter = \<lparr>requestsPerSecond = 1, burstSize = 3, tokens = 2,
                               lastRefillTime = 0\<rparr>,
                   lastSeen = 0\<rparr>,
                  \<lparr>limiter = \<lparr>requestsPerSecond = 1, burstSize = 3, tokens = 0,
                               lastRefillTime = 1\<rparr>,
                   lastSeen = 1\<rparr>],
         config = \<lparr>RequestsPerSecond = 1, BurstSize = 3, CleanupInterval = 1000000000\<rparr>\<rparr>"
    using a e by simp
  obtain ok r1 r2 where "allow ''B'' 1 rl' = Inr (ok, r1)"
    and r2: "allow ''B'' 1
        \<lparr>clients = [(''B'', 0)],
         store = [\<lparr>limiter = \<lparr>requestsPerSecond = 1, burstSize = 3, tokens = 2,
                               lastRefillTime = 0\<rparr>,
                   lastSeen = 0\<rparr>],
         config = \<lparr>RequestsPerSecond = 1, BurstSize = 3, CleanupInterval = 1000000000\<rparr>\<rparr> = Inr (ok, r2)"
    and "lookup r1 ''B'' = lookup r2 ''B''"
    using f by blast
  moreover have "ok = True" using b r2 by auto
  ultimately show ?thesis using h d e unfolding y by blast
qed

section \<open>Construction without validation\<close>

text \<open>
  C10. \<open>NewRateLimiter\<close> takes every configuration as it is: the registry it returns
  holds that configuration and no client, whatever the rate and the burst size are.
  With a burst size of zero, every \<open>allow\<close> call in every state the registry reaches
  denies the request.
\<close>

theorem NewRateLimiter_unchecked:
  "config (NewRateLimiter cfg) = cfg \<and> clients (NewRateLimiter cfg) = [] \<and>
   (BurstSize cfg = 0 \<and> run evs (NewRateLimiter cfg) = Inr rl \<longrightarrow>
      (\<exists>rl'. allow clientID now rl = Inr (False, rl')))"
proof -
  have "\<exists>rl'. allow clientID now rl = Inr (False, rl')"
    if b: "BurstSize cfg = 0" and r: "run evs (NewRateLimiter cfg) = Inr rl"
  proof -
    have i: "registry_inv cfg rl" using r by (rule registry_inv_reach)
    define l where "l = (case lookup rl clientID of
                 None \<Rightarrow> NewLimiter (rate_Limit (RequestsPerSecond cfg)) (sint (BurstSize cfg)) now
               | Some cl \<Rightarrow> limiter cl)"
    have "burstSize l = 0"
      using i b by (auto simp: l_def NewLimiter_def registry_inv_def configured_def split: option.splits)
    then have "refilled now l \<le> 0" using refilled_le_burst[of now l] by simp
    then have "fst (touch cfg now (lookup rl clientID)) = False"
      by (simp add: touch_eq Let_def l_def[symmetric])
    then show ?thesis using registry_inv_decision[OF i, of clientID now] by simp
  qed
  then show ?thesis by (simp add: NewRateLimiter_def)
qed

theorem NewRateLimiter_unchecked_witness:
  "BurstSize \<lparr>RequestsPerSecond = - 1, BurstSize = 0, CleanupInterval = 1000000000\<rparr> = 0 \<and>
   run [(0, Request ''a'')]
     (NewRateLimiter \<lparr>RequestsPerSecond = - 1, BurstSize = 0, CleanupInterval = 1000000000\<rparr>) =
     Inr \<lparr>clients = [(''a'', 0)],
          store = [\<lparr>limiter = \<lparr>requestsPerSecond = - 1, burstSize = 0, tokens = 0,
                                lastRefillTime = 0\<rparr>,
                    lastSeen = 0\<rparr>],
          config = \<lparr>RequestsPerSecond = - 1, BurstSize = 0, CleanupInterval = 1000000000\<rparr>\<rparr> \<and>
   (\<exists>rl'. allow ''b'' 5
      \<lparr>clients = [(''a'', 0)],
       store = [\<lparr>limiter = \<lparr>requestsPerSecond = - 1, burstSize = 0, tokens = 0,
                             lastRefillTime = 0\<rparr>,
                 lastSeen = 0\<rparr>],
       config = \<lparr>RequestsPerSecond = - 1, BurstSize = 0, CleanupInterval = 1000000000\<rparr>\<rparr> =
      Inr (False, rl'))"
proof -
  have b: "BurstSize \<lparr>RequestsPerSecond = - 1, BurstSize = 0, CleanupInterval = 1000000000\<rparr> = 0"
    by simp
  have h: "run [(0, Request ''a'')]
     (NewRateLimiter \<lparr>RequestsPerSecond = - 1, BurstSize = 0, CleanupInterval = 1000000000\<rparr>) =
     Inr \<lparr>clients = [(''a'', 0)],
          store = [\<lparr>limiter = \<lparr>requestsPerSecond = - 1, burstSize = 0, tokens = 0,
                                lastRefillTime = 0\<rparr>,
                    lastSeen = 0\<rparr>],
          config = \<lparr>RequestsPerSecond = - 1, BurstSize = 0, CleanupInterval = 1000000000\<rparr>\<rparr>"
    by (simp add: registry_defs)
  show ?thesis
    using b h
      NewRateLimiter_unchecked
        [of "\<lparr>RequestsPerSecond = - 1, BurstSize = 0, CleanupInterval = 1000000000\<rparr>"
            "[(0, Request ''a'')]" _ "''b''" 5]
    by blast
qed

section \<open>Burst admission\<close>

text \<open>
  C1. For a policy with burst size N, N at least 1, a client that has no entry in the
  registry (seen for the first time, or evicted by the janitor) is admitted on each of
  its first N requests made at one instant, and denied on the next one at that instant.
\<close>

theorem burst_admission:
  assumes "run evs (NewRateLimiter cfg) = Inr rl"
    and "lookup rl clientID = None"
    and "1 \<le> sint (BurstSize cfg)"
  shows "\<exists>rl'. allows clientID (replicate (Suc (nat (sint (BurstSize cfg)))) now) rl =
           Inr (replicate (nat (sint (BurstSize cfg))) True @ [False], rl')"
proof -
  define B where "B = sint (BurstSize cfg)"
  define N where "N = nat B"
  have i: "registry_inv cfg rl" using assms(1) by (rule registry_inv_reach)
  obtain rl' where a: "allows clientID (replicate (Suc N) now) rl =
      Inr (fst (touches cfg (replicate (Suc N) now) (lookup rl clientID)), rl')"
    using registry_inv_allows[OF i, of clientID "replicate (Suc N) now"] by blast
  have R: "refilled now (NewLimiter (rate_Limit (RequestsPerSecond cfg)) B now) = real_of_int B"
    by (simp add: refilled_def NewLimiter_def seconds_def)
  have pt: "(real (Suc k) \<le> real_of_int B) = (k < N)" for k
  proof -
    have "(real (Suc k) \<le> real_of_int B) = (int (Suc k) \<le> B)"
      by (metis of_int_le_iff of_int_of_nat_eq)
    then show ?thesis using assms(3) by (auto simp: N_def B_def)
  qed
  have "fst (touches cfg (replicate (Suc N) now) (lookup rl clientID)) =
          map (\<lambda>k. k < N) [0..<Suc N]"
    unfolding touches_same_instant assms(2) by (simp only: option.case B_def[symmetric] R pt)
  also have "\<dots> = replicate N True @ [False]"
    unfolding decisions_prefix by simp
  finally show ?thesis using a by (simp add: N_def B_def)
qed

theorem burst_admission_witness:
  "run [(0, Request ''X''), (0, Request ''X''), (0, Request ''X''), (0, Request ''X''),
        (1000000000, Request ''X''), (4000000000, Tick)]
     (NewRateLimiter \<lparr>RequestsPerSecond = 1, BurstSize = 3, CleanupInterval = 1000000000\<rparr>) =
     Inr \<lparr>clients = [],
          store = [\<lparr>limiter = \<lparr>requestsPerSecond = 1, burstSize = 3, tokens = 0,
                                lastRefillTime = 1000000000\<rparr>,
                    lastSeen = 1000000000\<rparr>],
          config = \<lparr>RequestsPerSecond = 1, BurstSize = 3, CleanupInterval = 1000000000\<rparr>\<rparr> \<and>
   (\<exists>rl'. allows ''X'' [4000000001, 4000000001, 4000000001, 4000000001]
       \<lparr>clients = [],
        store = [\<lparr>limiter = \<lparr>requestsPerSecond = 1, burstSize = 3, tokens = 0,
                              lastRefillTime = 1000000000\<rparr>,
                  lastSeen = 1000000000\<rparr>],
        config = \<lparr>RequestsPerSecond = 1, BurstSize = 3, CleanupInterval = 1000000000\<rparr>\<rparr> =
       Inr ([True, True, True, False], rl'))"
proof -
  have h: "run [(0, Request ''X''), (0, Request ''X''), (0, Request ''X''), (0, Request ''X''),
        (1000000000, Request ''X''), (4000000000, Tick)]
     (NewRateLimiter \<lparr>RequestsPerSecond = 1, BurstSize = 3, CleanupInterval = 1000000000\<rparr>) =
     Inr \<lparr>clients = [],
          store = [\<lparr>limiter = \<lparr>requestsPerSecond = 1, burstSize = 3, tokens = 0,
                                lastRefillTime = 1000000000\<rparr>,
                    lastSeen = 1000000000\<rparr>],
          config = \<lparr>RequestsPerSecond = 1, BurstSize = 3, CleanupInterval = 1000000000\<rparr>\<rparr>"
    by (simp add: registry_defs)
  have n: "lookup \<lparr>clients = [],
          store = [\<lparr>limiter = \<lparr>requestsPerSecond = 1, burstSize = 3, tokens = 0,
                                lastRefillTime = 1000000000\<rparr>,
                    lastSeen = 1000000000\<rparr>],
          config = \<lparr>RequestsPerSecond = 1, BurstSize = 3, CleanupInterval = 1000000000\<rparr>\<rparr>
        ''X'' = None"
    by (simp add: lookup_def)
  have b: "1 \<le> sint (BurstSize
             \<lparr>RequestsPerSecond = 1, BurstSize = 3, CleanupInterval = 1000000000\<rparr>)"
    by simp
  show ?thesis
    using h burst_admission[OF h n b, of 4000000001]
    by (simp add: eval_nat_numeral)
qed

section \<open>Idle eviction\<close>

text \<open>
  C2, amended. On a janitor tick at \<open>now\<close>, when the cleanup interval is at most
  \<open>2 ^ 62\<close> nanoseconds (so that twice the interval is a duration), exactly the
  entries last seen strictly before \<open>now - 2 * cleanupInterval\<close> are removed: such a
  client has no entry after the sweep, and every other client keeps its state unchanged.
\<close>

theorem janitor_sweep:
  assumes "run evs (NewRateLimiter cfg) = Inr rl"
    and "0 < sint (CleanupInterval cfg)" and "sint (CleanupInterval cfg) \<le> 2 ^ 62"
  shows "\<exists>rl'. cleanupExpiredClients [now] rl = Inr rl' \<and>
           (\<forall>clientID. lookup rl' clientID =
              (case lookup rl clientID of
                 None \<Rightarrow> None
               | Some cl \<Rightarrow>
                   if lastSeen cl < now - 2 * sint (CleanupInterval cfg) then None
                   else Some cl))"
proof -
  have i: "registry_inv cfg rl" using assms(1) by (rule registry_inv_reach)
  then have c: "config rl = cfg" by (simp add: registry_inv_def)
  have cut: "time_Add now (- CleanupInterval cfg * 2) = now - 2 * sint (CleanupInterval cfg)"
    unfolding time_Add_def sint_neg_twice[OF assms(2,3)] by simp
  obtain rl' where s: "sweep now rl = Inr rl'"
    and lk: "\<forall>k. lookup rl' k =
              (case lookup rl k of
                 None \<Rightarrow> None
               | Some cl \<Rightarrow>
                   if lastSeen cl < time_Add now (- CleanupInterval cfg * 2) then None
                   else Some cl)"
    using registry_inv_sweep[OF i, of now] by blast
  have "cleanupExpiredClients [now] rl = Inr rl'"
    using s assms(2) c by (simp add: cleanupExpiredClients_def)
  then show ?thesis using lk unfolding cut by blast
qed

text \<open>
  The sweep on the specification's scenario: with an interval of one second, a client
  idle for four seconds is removed and one idle for one second survives.
\<close>

theorem janitor_sweep_witness:
  "run [(0, Request ''X''), (3000000000, Request ''Y'')]
     (NewRateLimiter \<lparr>RequestsPerSecond = 1, BurstSize = 3, CleanupInterval = 1000000000\<rparr>) =
     Inr \<lparr>clients = [(''X'', 0), (''Y'', 1)],
          store = [\<lparr>limiter = \<lparr>requestsPerSecond = 1, burstSize = 3, tokens = 2,
                                lastRefillTime = 0\<rparr>,
                    lastSeen = 0\<rparr>,
                   \<lparr>limiter = \<lparr>requestsPerSecond = 1, burstSize = 3, tokens = 2,
                                lastRefillTime = 3000000000\<rparr>,
                    lastSeen = 3000000000\<rparr>],
          config = \<lparr>RequestsPerSecond = 1, BurstSize = 3, CleanupInterval = 1000000000\<rparr>\<rparr> \<and>
   (\<exists>rl'. cleanupExpiredClients [4000000000]
       \<lparr>clients = [(''X'', 0), (''Y'', 1)],
        store = [\<lparr>limiter = \<lparr>requestsPerSecond = 1, burstSize = 3, tokens = 2,
                              lastRefillTime = 0\<rparr>,
                  lastSeen = 0\<rparr>,
                 \<lparr>limiter = \<lparr>requestsPerSecond = 1, burstSize = 3, tokens = 2,
                              lastRefillTime = 3000000000\<rparr>,
                  lastSeen = 3000000000\<rparr>],
        config = \<lparr>RequestsPerSecond = 1, BurstSize = 3, CleanupInterval = 1000000000\<rparr>\<rparr> =
       Inr rl' \<and>
     lookup rl' ''X'' = None \<and>
     lookup rl' ''Y'' =
       Some \<lparr>limiter = \<lparr>requestsPerSecond = 1, burstSize = 3, tokens = 2,
                          lastRefillTime = 3000000000\<rparr>,
              lastSeen = 3000000000\<rparr>)"
proof -
  have h: "run [(0, Request ''X''), (3000000000, Request ''Y'')]
     (NewRateLimiter \<lparr>RequestsPerSecond = 1, BurstSize = 3, CleanupInterval = 1000000000\<rparr>) =
     Inr \<lparr>clients = [(''X'', 0), (''Y'', 1)],
          store = [\<lparr>limiter = \<lparr>requestsPerSecond = 1, burstSize = 3, tokens = 2,
                                lastRefillTime = 0\<rparr>,
                    lastSeen = 0\<rparr>,
                   \<lparr>limiter = \<lparr>requestsPerSecond = 1, burstSize = 3, tokens = 2,
                                lastRefillTime = 3000000000\<rparr>,
                    lastSeen = 3000000000\<rparr>],
          config = \<lparr>RequestsPerSecond = 1, BurstSize = 3, CleanupInterval = 1000000000\<rparr>\<rparr>"
    by (simp add: registry_defs)
  have p: "0 < sint (CleanupInterval
             \<lparr>RequestsPerSecond = 1, BurstSize = 3, CleanupInterval = 1000000000\<rparr>)"
    by simp
  have q: "sint (CleanupInterval
             \<lparr>RequestsPerSecond = 1, BurstSize = 3, CleanupInterval = 1000000000\<rparr>) \<le> 2 ^ 62"
    by simp
  show ?thesis
    using h janitor_sweep[OF h p q, of 4000000000]
    by (auto simp: lookup_def deref_def)
qed

text \<open>
  C2 as stated fails when \<open>-CleanupInterval * 2\<close> overflows the 64-bit duration. With an
  interval of \<open>2 ^ 62 + 1\<close> nanoseconds the product wraps to \<open>2 ^ 63 - 2\<close>, the cutoff lies
  in the future, and a client seen one nanosecond before the tick is removed although
  it was last seen after \<open>now - 2 * cleanupInterval\<close>.
\<close>

theorem janitor_sweep_counterexample:
  "run [(4611686018427387905, Request ''a'')]
     (NewRateLimiter
        \<lparr>RequestsPerSecond = 10, BurstSize = 20, CleanupInterval = 4611686018427387905\<rparr>) =
     Inr \<lparr>clients = [(''a'', 0)],
          store = [\<lparr>limiter = \<lparr>requestsPerSecond = 10, burstSize = 20, tokens = 19,
                                lastRefillTime = 4611686018427387905\<rparr>,
                    lastSeen = 4611686018427387905\<rparr>],
          config = \<lparr>RequestsPerSecond = 10, BurstSize = 20,
                    CleanupInterval = 4611686018427387905\<rparr>\<rparr> \<and>
   \<not> (4611686018427387905 :: int) < 4611686018427387906 - 2 * 4611686018427387905 \<and>
   cleanupExpiredClients [4611686018427387906]
     \<lparr>clients = [(''a'', 0)],
      store = [\<lparr>limiter = \<lparr>requestsPerSecond = 10, burstSize = 20, tokens = 19,
                            lastRefillTime = 4611686018427387905\<rparr>,
                lastSeen = 4611686018427387905\<rparr>],
      config = \<lparr>RequestsPerSecond = 10, BurstSize = 20,
                CleanupInterval = 4611686018427387905\<rparr>\<rparr> =
     Inr \<lparr>clients = [],
          store = [\<lparr>limiter = \<lparr>requestsPerSecond = 10, burstSize = 20, tokens = 19,
                                lastRefillTime = 4611686018427387905\<rparr>,
                    lastSeen = 4611686018427387905\<rparr>],
          config = \<lparr>RequestsPerSecond = 10, BurstSize = 20,
                    CleanupInterval = 4611686018427387905\<rparr>\<rparr>"
  by (simp add: registry_defs)

section \<open>The rate is a converted integer\<close>

text \<open>
  C4, amended. The configured \<open>RequestsPerSecond\<close> is an integer that nothing checks to
  be positive. It reaches the limiter through the conversion \<open>rate.Limit\<close>, so every
  client's limiter runs at an integer-valued rate: the configured integer itself when its
  magnitude is at most \<open>2 ^ 53\<close>, its \<open>float64\<close> rounding beyond. A rate such as 0.5
  cannot be configured. The refill does not truncate: the fractions of a token earned
  between denied requests add up, so a drained client that keeps asking is denied while
  the rate times the time since the drain is below one token, and admitted as soon as it
  reaches one.
\<close>

theorem configured_rate_is_integer:
  assumes "run evs (NewRateLimiter cfg) = Inr rl"
    and "lookup rl clientID = Some cl"
  shows "requestsPerSecond (limiter cl) = rate_Limit (RequestsPerSecond cfg) \<and>
         (\<exists>z :: int. requestsPerSecond (limiter cl) = real_of_int z) \<and>
         (\<bar>sint (RequestsPerSecond cfg)\<bar> \<le> 2 ^ 53 \<longrightarrow>
            requestsPerSecond (limiter cl) = real_of_int (sint (RequestsPerSecond cfg))) \<and>
         (tokens (limiter cl) = 0 \<and> 1 \<le> sint (BurstSize cfg) \<and>
          (\<forall>u \<in> set ts.
             requestsPerSecond (limiter cl) * seconds (u - lastRefillTime (limiter cl)) < 1) \<and>
          1 \<le> requestsPerSecond (limiter cl) * seconds (t - lastRefillTime (limiter cl)) \<longrightarrow>
            (\<exists>rl'. allows clientID (ts @ [t]) rl =
                     Inr (replicate (length ts) False @ [True], rl')))"
proof -
  have i: "registry_inv cfg rl" using assms(1) by (rule registry_inv_reach)
  then have c: "configured cfg cl" using assms(2) by (auto simp: registry_inv_def)
  then have r: "requestsPerSecond (limiter cl) = rate_Limit (RequestsPerSecond cfg)"
    by (simp add: configured_def)
  have z: "\<exists>z :: int. requestsPerSecond (limiter cl) = real_of_int z"
    unfolding r by (rule rate_Limit_integral)
  have x: "\<bar>sint (RequestsPerSecond cfg)\<bar> \<le> 2 ^ 53 \<longrightarrow>
            requestsPerSecond (limiter cl) = real_of_int (sint (RequestsPerSecond cfg))"
    unfolding r using rate_Limit_exact by blast
  have p: "\<exists>rl'. allows clientID (ts @ [t]) rl =
                     Inr (replicate (length ts) False @ [True], rl')"
    if "tokens (limiter cl) = 0" and "1 \<le> sint (BurstSize cfg)"
      and "\<forall>u \<in> set ts.
             requestsPerSecond (limiter cl) * seconds (u - lastRefillTime (limiter cl)) < 1"
      and "1 \<le> requestsPerSecond (limiter cl) * seconds (t - lastRefillTime (limiter cl))"
  proof -
    obtain rl' where a: "allows clientID (ts @ [t]) rl =
        Inr (fst (touches cfg (ts @ [t]) (lookup rl clientID)), rl')"
      using registry_inv_allows[OF i, of clientID "ts @ [t]"] by blast
    have b: "1 \<le> burstSize (limiter cl)" using c that(2) by (simp add: configured_def)
    have k: "tokens (limiter cl) =
           requestsPerSecond (limiter cl) *
           seconds (lastRefillTime (limiter cl) - lastRefillTime (limiter cl))"
      using that(1) by (simp add: seconds_def)
    have "fst (touches cfg (ts @ [t]) (Some cl)) = replicate (length ts) False @ [True]"
      using b k that(3,4) by (rule touches_polls)
    then show ?thesis using a assms(2) by simp
  qed
  show ?thesis using r z x p by blast
qed

text \<open>
  At one token per second, a drained client asking after 0.4 s, 0.8 s and 1.2 s is
  admitted on the third request.
\<close>

theorem configured_rate_is_integer_witness:
  "run [(0, Request ''X''), (0, Request ''X''), (0, Request ''X'')] (NewRateLimiter \<lparr>RequestsPerSecond = 1, BurstSize = 3, CleanupInterval = 1000000000\<rparr>) =
     Inr \<lparr>clients = [(''X'', 0)],
          store = [\<lparr>limiter = \<lparr>requestsPerSecond = 1, burstSize = 3, tokens = 0, lastRefillTime = 0\<rparr>, lastSeen = 0\<rparr>],
          config = \<lparr>RequestsPerSecond = 1, BurstSize = 3, CleanupInterval = 1000000000\<rparr>\<rparr> \<and>
   (\<exists>rl'. allows ''X'' [400000000, 800000000, 1200000000]
       \<lparr>clients = [(''X'', 0)],
          store = [\<lparr>limiter = \<lparr>requestsPerSecond = 1, burstSize = 3, tokens = 0, lastRefillTime = 0\<rparr>, lastSeen = 0\<rparr>],
          config = \<lparr>RequestsPerSecond = 1, BurstSize = 3, CleanupInterval = 1000000000\<rparr>\<rparr> =
       Inr ([False, False, True], rl'))"
proof -
  have h: "run [(0, Request ''X''), (0, Request ''X''), (0, Request ''X'')] (NewRateLimiter \<lparr>RequestsPerSecond = 1, BurstSize = 3, CleanupInterval = 1000000000\<rparr>) =
     Inr \<lparr>clients = [(''X'', 0)],
          store = [\<lparr>limiter = \<lparr>requestsPerSecond = 1, burstSize = 3, tokens = 0, lastRefillTime = 0\<rparr>, lastSeen = 0\<rparr>],
          config = \<lparr>RequestsPerSecond = 1, BurstSize = 3, CleanupInterval = 1000000000\<rparr>\<rparr>"
    by (simp add: registry_defs)
  have s: "lookup \<lparr>clients = [(''X'', 0)],
          store = [\<lparr>limiter = \<lparr>requestsPerSecond = 1, burstSize = 3, tokens = 0, lastRefillTime = 0\<rparr>, lastSeen = 0\<rparr>],
          config = \<lparr>RequestsPerSecond = 1, BurstSize = 3, CleanupInterval = 1000000000\<rparr>\<rparr>
        ''X'' = Some \<lparr>limiter = \<lparr>requestsPerSecond = 1, burstSize = 3, tokens = 0, lastRefillTime = 0\<rparr>, lastSeen = 0\<rparr>"
    by (simp add: lookup_def deref_def)
  show ?thesis
    using h configured_rate_is_integer[OF h s, of "[400000000, 800000000]" 1200000000]
    by (simp add: seconds_def)
qed

text \<open>
  C4 as stated fails on two configurations the registry accepts: with
  \<open>RequestsPerSecond = 0\<close> the client's limiter runs at a rate that is not greater than
  0, and with \<open>RequestsPerSecond = 2 ^ 53 + 1\<close> it runs at \<open>2 ^ 53\<close>, not at the
  configured value.
\<close>

theorem unchecked_rate_counterexample:
  "run [(0, Request ''a'')] (NewRateLimiter \<lparr>RequestsPerSecond = 0, BurstSize = 1, CleanupInterval = 1000000000\<rparr>) =
     Inr \<lparr>clients = [(''a'', 0)],
          store = [\<lparr>limiter = \<lparr>requestsPerSecond = 0, burstSize = 1, tokens = 0, lastRefillTime = 0\<rparr>, lastSeen = 0\<rparr>],
          config = \<lparr>RequestsPerSecond = 0, BurstSize = 1, CleanupInterval = 1000000000\<rparr>\<rparr> \<and>
   \<not> 0 < requestsPerSecond (limiter \<lparr>limiter = \<lparr>requestsPerSecond = 0, burstSize = 1, tokens = 0, lastRefillTime = 0\<rparr>, lastSeen = 0\<rparr>) \<and>
   run [(0, Request ''a'')] (NewRateLimiter \<lparr>RequestsPerSecond = 9007199254740993, BurstSize = 1, CleanupInterval = 1000000000\<rparr>) =
     Inr \<lparr>clients = [(''a'', 0)],
          store = [\<lparr>limiter = \<lparr>requestsPerSecond = 9007199254740992, burstSize = 1, tokens = 0, lastRefillTime = 0\<rparr>, lastSeen = 0\<rparr>],
          config = \<lparr>RequestsPerSecond = 9007199254740993, BurstSize = 1, CleanupInterval = 1000000000\<rparr>\<rparr> \<and>
   requestsPerSecond (limiter \<lparr>limiter = \<lparr>requestsPerSecond = 9007199254740992, burstSize = 1, tokens = 0, lastRefillTime = 0\<rparr>, lastSeen = 0\<rparr>) \<noteq>
     real_of_int (sint (RequestsPerSecond \<lparr>RequestsPerSecond = 9007199254740993, BurstSize = 1, CleanupInterval = 1000000000\<rparr>))"
  by (simp add: registry_defs bitlen_def compute_floorlog)

section \<open>Refill over time\<close>

text \<open>
  C5, amended. A client whose bucket holds no token waits while it makes no request
  (the janitor may tick and other clients may ask). If it still has its entry after the
  wait, it is then admitted on exactly \<open>floor (requestsPerSecond * elapsedSeconds)\<close>
  requests made at the instant \<open>now\<close>, capped at the burst size (on none when that number
  is negative), and denied on all further ones at that instant. Here \<open>requestsPerSecond\<close>
  is the limiter's rate and \<open>elapsedSeconds\<close> the time since the bucket's last refill.
\<close>

theorem refill_after_drain:
  assumes "run evs (NewRateLimiter cfg) = Inr rl0"
    and "lookup rl0 clientID = Some cl"
    and "tokens (limiter cl) = 0"
    and "run wait rl0 = Inr rl"
    and "\<forall>e \<in> set wait. snd e \<noteq> Request clientID"
    and "lookup rl clientID \<noteq> None"
  shows "\<exists>rl'. allows clientID (replicate n now) rl =
           Inr (replicate
                  (min n (nat (min (sint (BurstSize cfg))
                     \<lfloor>rate_Limit (RequestsPerSecond cfg) *
                        seconds (now - lastRefillTime (limiter cl))\<rfloor>))) True @
                replicate
                  (n - nat (min (sint (BurstSize cfg))
                     \<lfloor>rate_Limit (RequestsPerSecond cfg) *
                        seconds (now - lastRefillTime (limiter cl))\<rfloor>)) False,
                rl')"
proof -
  have i0: "registry_inv cfg rl0" using assms(1) by (rule registry_inv_reach)
  have "registry_inv cfg rl \<and>
        (lookup rl clientID = None \<or> lookup rl clientID = lookup rl0 clientID)"
    using i0 assms(4,5) by (rule wait_keeps)
  then have i: "registry_inv cfg rl" and s: "lookup rl clientID = Some cl"
    using assms(2,6) by auto
  show ?thesis using i s assms(3) by (rule drained_decisions)
qed

text \<open>
  At one token per second and a burst of three, a client drained at 0 survives a tick
  at 1.5 s and is admitted on two of four requests at 2.5 s.
\<close>

theorem refill_after_drain_witness:
  "run [(0, Request ''X''), (0, Request ''X''), (0, Request ''X'')] (NewRateLimiter \<lparr>RequestsPerSecond = 1, BurstSize = 3, CleanupInterval = 1000000000\<rparr>) =
     Inr \<lparr>clients = [(''X'', 0)],
          store = [\<lparr>limiter = \<lparr>requestsPerSecond = 1, burstSize = 3, tokens = 0, lastRefillTime = 0\<rparr>, lastSeen = 0\<rparr>],
          config = \<lparr>RequestsPerSecond = 1, BurstSize = 3, CleanupInterval = 1000000000\<rparr>\<rparr> \<and>
   run [(1500000000, Tick), (2000000000, Request ''Y'')]
     \<lparr>clients = [(''X'', 0)],
          store = [\<lparr>limiter = \<lparr>requestsPerSecond = 1, burstSize = 3, tokens = 0, lastRefillTime = 0\<rparr>, lastSeen = 0\<rparr>],
          config = \<lparr>RequestsPerSecond = 1, BurstSize = 3, CleanupInterval = 1000000000\<rparr>\<rparr> =
     Inr \<lparr>clients = [(''X'', 0), (''Y'', 1)],
          store = [\<lparr>limiter = \<lparr>requestsPerSecond = 1, burstSize = 3, tokens = 0, lastRefillTime = 0\<rparr>, lastSeen = 0\<rparr>,
                   \<lparr>limiter = \<lparr>requestsPerSecond = 1, burstSize = 3, tokens = 2, lastRefillTime = 2000000000\<rparr>, lastSeen = 2000000000\<rparr>],
          config = \<lparr>RequestsPerSecond = 1, BurstSize = 3, CleanupInterval = 1000000000\<rparr>\<rparr> \<and>
   (\<exists>rl'. allows ''X'' [2500000000, 2500000000, 2500000000, 2500000000]
       \<lparr>clients = [(''X'', 0), (''Y'', 1)],
          store = [\<lparr>limiter = \<lparr>requestsPerSecond = 1, burstSize = 3, tokens = 0, lastRefillTime = 0\<rparr>, lastSeen = 0\<rparr>,
                   \<lparr>limiter = \<lparr>requestsPerSecond = 1, burstSize = 3, tokens = 2, lastRefillTime = 2000000000\<rparr>, lastSeen = 2000000000\<rparr>],
          config = \<lparr>RequestsPerSecond = 1, BurstSize = 3, CleanupInterval = 1000000000\<rparr>\<rparr> =
       Inr ([True, True, False, False], rl'))"
proof -
  have h: "run [(0, Request ''X''), (0, Request ''X''), (0, Request ''X'')] (NewRateLimiter \<lparr>RequestsPerSecond = 1, BurstSize = 3, CleanupInterval = 1000000000\<rparr>) =
     Inr \<lparr>clients = [(''X'', 0)],
          store = [\<lparr>limiter = \<lparr>requestsPerSecond = 1, burstSize = 3, tokens = 0, lastRefillTime = 0\<rparr>, lastSeen = 0\<rparr>],
          config = \<lparr>RequestsPerSecond = 1, BurstSize = 3, CleanupInterval = 1000000000\<rparr>\<rparr>"
    by (simp add: registry_defs)
  have s: "lookup \<lparr>clients = [(''X'', 0)],
          store = [\<lparr>limiter = \<lparr>requestsPerSecond = 1, burstSize = 3, tokens = 0, lastRefillTime = 0\<rparr>, lastSeen = 0\<rparr>],
          config = \<lparr>RequestsPerSecond = 1, BurstSize = 3, CleanupInterval = 1000000000\<rparr>\<rparr>
        ''X'' = Some \<lparr>limiter = \<lparr>requestsPerSecond = 1, burstSize = 3, tokens = 0, lastRefillTime = 0\<rparr>, lastSeen = 0\<rparr>"
    by (simp add: lookup_def deref_def)
  have z: "tokens (limiter \<lparr>limiter = \<lparr>requestsPerSecond = 1, burstSize = 3, tokens = 0, lastRefillTime = 0\<rparr>, lastSeen = 0\<rparr>) = 0"
    by simp
  have w: "run [(1500000000, Tick), (2000000000, Request ''Y'')]
     \<lparr>clients = [(''X'', 0)],
          store = [\<lparr>limiter = \<lparr>requestsPerSecond = 1, burstSize = 3, tokens = 0, lastRefillTime = 0\<rparr>, lastSeen = 0\<rparr>],
          config = \<lparr>RequestsPerSecond = 1, BurstSize = 3, CleanupInterval = 1000000000\<rparr>\<rparr> =
     Inr \<lparr>clients = [(''X'', 0), (''Y'', 1)],
          store = [\<lparr>limiter = \<lparr>requestsPerSecond = 1, burstSize = 3, tokens = 0, lastRefillTime = 0\<rparr>, lastSeen = 0\<rparr>,
                   \<lparr>limiter = \<lparr>requestsPerSecond = 1, burstSize = 3, tokens = 2, lastRefillTime = 2000000000\<rparr>, lastSeen = 2000000000\<rparr>],
          config = \<lparr>RequestsPerSecond = 1, BurstSize = 3, CleanupInterval = 1000000000\<rparr>\<rparr>"
    by (simp add: registry_defs)
  have q: "\<forall>e \<in> set [(1500000000 :: int, Tick), (2000000000, Request ''Y'')].
             snd e \<noteq> Request ''X''"
    by simp
  have k: "lookup \<lparr>clients = [(''X'', 0), (''Y'', 1)],
          store = [\<lparr>limiter = \<lparr>requestsPerSecond = 1, burstSize = 3, tokens = 0, lastRefillTime = 0\<rparr>, lastSeen = 0\<rparr>,
                   \<lparr>limiter = \<lparr>requestsPerSecond = 1, burstSize = 3, tokens = 2, lastRefillTime = 2000000000\<rparr>, lastSeen = 2000000000\<rparr>],
          config = \<lparr>RequestsPerSecond = 1, BurstSize = 3, CleanupInterval = 1000000000\<rparr>\<rparr>
        ''X'' \<noteq> None"
    by (simp add: lookup_def deref_def)
  show ?thesis
    using h w refill_after_drain[OF h s z w q k, of 4 2500000000]
    by (simp add: rate_Limit_def float64_of_int_def seconds_def eval_nat_numeral)
qed

text \<open>
  C5 as stated fails when the janitor evicts the client during the wait. With a cleanup
  interval of one second, a client drained at 0 is removed by the tick at 2.5 s; at 2.6 s
  it is created anew and admitted on three requests, where the formula gives two.
\<close>

theorem refill_after_drain_counterexample:
  "run [(0, Request ''X''), (0, Request ''X''), (0, Request ''X'')] (NewRateLimiter \<lparr>RequestsPerSecond = 1, BurstSize = 3, CleanupInterval = 1000000000\<rparr>) =
     Inr \<lparr>clients = [(''X'', 0)],
          store = [\<lparr>limiter = \<lparr>requestsPerSecond = 1, burstSize = 3, tokens = 0, lastRefillTime = 0\<rparr>, lastSeen = 0\<rparr>],
          config = \<lparr>RequestsPerSecond = 1, BurstSize = 3, CleanupInterval = 1000000000\<rparr>\<rparr> \<and>
   run [(2500000000, Tick)]
     \<lparr>clients = [(''X'', 0)],
          store = [\<lparr>limiter = \<lparr>requestsPerSecond = 1, burstSize = 3, tokens = 0, lastRefillTime = 0\<rparr>, lastSeen = 0\<rparr>],
          config = \<lparr>RequestsPerSecond = 1, BurstSize = 3, CleanupInterval = 1000000000\<rparr>\<rparr> =
     Inr \<lparr>clients = [],
          store = [\<lparr>limiter = \<lparr>requestsPerSecond = 1, burstSize = 3, tokens = 0, lastRefillTime = 0\<rparr>, lastSeen = 0\<rparr>],
          config = \<lparr>RequestsPerSecond = 1, BurstSize = 3, CleanupInterval = 1000000000\<rparr>\<rparr> \<and>
   allows ''X'' [2600000000, 2600000000, 2600000000, 2600000000]
     \<lparr>clients = [],
          store = [\<lparr>limiter = \<lparr>requestsPerSecond = 1, burstSize = 3, tokens = 0, lastRefillTime = 0\<rparr>, lastSeen = 0\<rparr>],
          config = \<lparr>RequestsPerSecond = 1, BurstSize = 3, CleanupInterval = 1000000000\<rparr>\<rparr> =
     Inr ([True, True, True, False],
          \<lparr>clients = [(''X'', 1)],
          store = [\<lparr>limiter = \<lparr>requestsPerSecond = 1, burstSize = 3, tokens = 0, lastRefillTime = 0\<rparr>, lastSeen = 0\<rparr>,
                   \<lparr>limiter = \<lparr>requestsPerSecond = 1, burstSize = 3, tokens = 0, lastRefillTime = 2600000000\<rparr>, lastSeen = 2600000000\<rparr>],
          config = \<lparr>RequestsPerSecond = 1, BurstSize = 3, CleanupInterval = 1000000000\<rparr>\<rparr>) \<and>
   min (sint (BurstSize \<lparr>RequestsPerSecond = 1, BurstSize = 3, CleanupInterval = 1000000000\<rparr>))
     \<lfloor>rate_Limit (RequestsPerSecond \<lparr>RequestsPerSecond = 1, BurstSize = 3, CleanupInterval = 1000000000\<rparr>) * seconds (2600000000 - 0)\<rfloor> = 2"
  by (simp add: registry_defs)

section \<open>Token bounds\<close>




end
